theory Spec2Isabelle
  imports Complex_Main
begin

section \<open>Exceptions of the platform\<close>

text \<open>
  The exceptions that the hook's code can raise, as values.  \<open>TypeError\<close>: a property read
  on \<open>null\<close>; \<open>NotSupportedError\<close>: \<open>createBuffer\<close> with zero frames;
  \<open>InvalidCharacterError\<close>: \<open>atob\<close> on text that is not base64; \<open>RangeError\<close>: an
  \<open>Int16Array\<close> view over a buffer of odd byte length; \<open>LibraryError\<close>: the plain
  \<open>Error\<close> that the messaging library's client factory throws.
\<close>

datatype js_error = TypeError | NotSupportedError | InvalidCharacterError | RangeError | LibraryError

section \<open>The platform's base64: \<open>btoa\<close> and \<open>atob\<close>\<close>

text \<open>
  A binary string (every code unit below 256) is a \<open>string\<close>; a byte is a \<open>nat\<close> below 256.
  \<open>btoa\<close> groups three bytes into four 6-bit values, writes each with the alphabet and pads
  with \<open>=\<close> to a multiple of four characters.
\<close>

definition b64chars :: string where
  "b64chars = ''ABCDEFGHIJKLMNOPQRSTUVWXYZabcdefghijklmnopqrstuvwxyz0123456789+/''"

definition b64char :: "nat \<Rightarrow> char" where
  "b64char v = b64chars ! v"

definition b64val :: "char \<Rightarrow> nat option" where
  "b64val c = map_of (zip b64chars [0..<64]) c"

fun sextets :: "nat list \<Rightarrow> nat list" where
  "sextets (a # b # c # r) =
     [a div 4, (a mod 4) * 16 + b div 16, (b mod 16) * 4 + c div 64, c mod 64] @ sextets r"
| "sextets [a, b] = [a div 4, (a mod 4) * 16 + b div 16, (b mod 16) * 4]"
| "sextets [a] = [a div 4, (a mod 4) * 16]"
| "sextets [] = []"

definition btoa :: "string \<Rightarrow> string" where
  "btoa binary =
     (let bs = map of_char binary :: nat list
      in map b64char (sextets bs) @ replicate ((3 - length bs mod 3) mod 3) (CHR ''=''))"

text \<open>
  \<open>atob\<close> is the forgiving decoder: ASCII whitespace is removed; when the length is a
  multiple of four, one or two trailing \<open>=\<close> are removed; a length of 1 modulo 4, or a
  character outside the alphabet, raises \<open>InvalidCharacterError\<close>; left-over bits of the last
  group are dropped.
\<close>

definition ascii_ws :: "char \<Rightarrow> bool" where
  "ascii_ws c = (of_char c \<in> {9, 10, 12, 13, 32 :: nat})"

definition strip_pad :: "string \<Rightarrow> string" where
  "strip_pad t =
     (if length t mod 4 = 0 then
        (case rev t of
           a # b # r \<Rightarrow>
             if a = CHR ''='' \<and> b = CHR ''='' then rev r
             else if a = CHR ''='' then rev (b # r) else t
         | [a] \<Rightarrow> if a = CHR ''='' then [] else t
         | [] \<Rightarrow> t)
      else t)"

fun unsextets :: "nat list \<Rightarrow> nat list" where
  "unsextets (p # q # r # s # rest) =
     [p * 4 + q div 16, (q mod 16) * 16 + r div 4, (r mod 4) * 64 + s] @ unsextets rest"
| "unsextets [p, q, r] = [p * 4 + q div 16, (q mod 16) * 16 + r div 4]"
| "unsextets [p, q] = [p * 4 + q div 16]"
| "unsextets [p] = []"
| "unsextets [] = []"

definition atob :: "string \<Rightarrow> js_error + string" where
  "atob base64 =
     (let t = strip_pad (filter (\<lambda>c. \<not> ascii_ws c) base64)
      in if length t mod 4 = 1 then Inl InvalidCharacterError
         else (case those (map b64val t) of
                 None \<Rightarrow> Inl InvalidCharacterError
               | Some vs \<Rightarrow> Inr (map char_of (unsextets vs))))"

section \<open>The sample codec\<close>

text \<open>
  Samples are modelled as reals (no \<open>NaN\<close>, which the code would store as 0).  For a
  finite 32-bit float \<open>s\<close> the products \<open>s * 0x8000\<close> and
  \<open>s * 0x7FFF\<close> are exact in double precision (24 significant bits times 15 or 16 bits),
  and \<open>q / 32768\<close> with a 16-bit \<open>q\<close> is exact in single precision, so real arithmetic
  computes what the code computes on every finite sample.

  Storing a number into an \<open>Int16Array\<close> truncates it towards zero and wraps it modulo
  \<open>2^16\<close> into the signed range.
\<close>

definition trunc_toward_zero :: "real \<Rightarrow> int" where
  "trunc_toward_zero v = (if v < 0 then \<lceil>v\<rceil> else \<lfloor>v\<rfloor>)"

definition toInt16 :: "int \<Rightarrow> int" where
  "toInt16 k = (k + 32768) mod 65536 - 32768"

definition pcm16_of :: "real \<Rightarrow> int" where
  "pcm16_of x =
     (let s = max (- 1) (min 1 x)
      in toInt16 (trunc_toward_zero (if s < 0 then s * 32768 else s * 32767)))"

text \<open>The two bytes of a 16-bit element as the byte view shows them (little-endian).\<close>

definition int16_bytes :: "int \<Rightarrow> nat list" where
  "int16_bytes q = [nat (q mod 256), nat (q div 256 mod 256)]"

definition float32ToBase64 :: "real list \<Rightarrow> string" where
  "float32ToBase64 buffer =
     (let pcm16 = map pcm16_of buffer;
          bytes = concat (map int16_bytes pcm16);
          binary = map char_of bytes
      in btoa binary)"

fun int16_view :: "nat list \<Rightarrow> int list" where
  "int16_view (lo # hi # r) = toInt16 (int lo + 256 * int hi) # int16_view r"
| "int16_view [lo] = []"
| "int16_view [] = []"

definition base64ToFloat32 :: "string \<Rightarrow> js_error + real list" where
  "base64ToFloat32 base64 =
     (case atob base64 of
        Inl e \<Rightarrow> Inl e
      | Inr binary \<Rightarrow>
          (let bytes = map of_char binary :: nat list
           in if odd (length bytes) then Inl RangeError
              else Inr (map (\<lambda>q. real_of_int q / 32768) (int16_view bytes))))"

section \<open>The state of the hook \<open>useGeminiLive\<close>\<close>

text \<open>
  The React state and the refs of the hook, with the effects on the outside world kept as
  traces: \<open>sent\<close> holds the messages handed to \<open>wsRef.current.send\<close>, \<open>opened\<close> the URLs
  of the WebSockets created, \<open>started\<close> the calls of \<open>source.start\<close> (the block and its
  start time).  \<open>ws\<close> is the \<open>readyState\<close> of \<open>wsRef.current\<close> (\<open>None\<close> while the ref is
  \<open>null\<close>), \<open>audioContext\<close> says whether \<open>audioContextRef.current\<close> is set.  Times of the
  playback clock are reals, so the rounding of the cursor's floating-point additions is
  not part of the model.
\<close>

datatype readyState = CONNECTING | OPEN | CLOSING | CLOSED

text \<open>A \<open>realtimeInput\<close> message with one media chunk: its \<open>mimeType\<close> and its \<open>data\<close>.\<close>

datatype wire = MediaChunk string string

record hook =
  isConnected :: bool
  isSpeaking :: bool
  error :: "string option"
  logs :: "string list"
  isVideoEnabled :: bool
  ws :: "readyState option"
  audioContext :: bool
  audioQueue :: "real list list"
  isPlaying :: bool
  scheduledTime :: real
  sent :: "wire list"
  opened :: "string list"
  started :: "(real list \<times> real) list"

definition initial :: hook where
  "initial = \<lparr> isConnected = False, isSpeaking = False, error = None, logs = [],
     isVideoEnabled = True, ws = None, audioContext = False, audioQueue = [],
     isPlaying = False, scheduledTime = 0, sent = [], opened = [], started = [] \<rparr>"

definition API_URL :: string where
  "API_URL = ''wss://generativelanguage.googleapis.com/ws/google.ai.generativelanguage.v1alpha.GenerativeService.BidiGenerateContent''"

definition addLog :: "string \<Rightarrow> hook \<Rightarrow> hook" where
  "addLog message s = s\<lparr>logs := drop (length (logs s) - 19) (logs s) @ [message]\<rparr>"

subsection \<open>Connecting and sending\<close>

text \<open>
  \<open>connect\<close> returns at once without a credential, and when the socket is open; otherwise
  it creates a WebSocket (in state \<open>CONNECTING\<close>) and stores it in \<open>wsRef.current\<close>.  The
  callbacks it installs on the socket run later; \<open>onmessage\<close> is modelled below.
\<close>

definition connect :: "string \<Rightarrow> hook \<Rightarrow> hook" where
  "connect apiKey s =
     (if apiKey = [] then addLog ''Error: API Key is missing'' (s\<lparr>error := Some ''API Key is missing''\<rparr>)
      else if ws s = Some OPEN then s
      else (addLog ''Connecting to Gemini Live...'' s)
             \<lparr>ws := Some CONNECTING, opened := opened s @ [API_URL @ ''?key='' @ apiKey]\<rparr>)"

text \<open>The handler of the microphone worklet's messages (inside \<open>startAudioCapture\<close>).\<close>

definition workletMessage :: "real list \<Rightarrow> hook \<Rightarrow> js_error option \<times> hook" where
  "workletMessage inputData s =
     (let base64PCM = float32ToBase64 inputData
      in if ws s = Some OPEN
         then (None, s\<lparr>sent := sent s @ [MediaChunk ''audio/pcm;rate=16000'' base64PCM]\<rparr>)
         else (None, s))"

definition sendVideoFrame :: "string \<Rightarrow> hook \<Rightarrow> js_error option \<times> hook" where
  "sendVideoFrame base64Image s =
     (if \<not> isVideoEnabled s then (None, s)
      else if ws s = Some OPEN
      then (None, addLog ''Video frame sent'' (s\<lparr>sent := sent s @ [MediaChunk ''image/jpeg'' base64Image]\<rparr>))
      else (None, s))"

subsection \<open>Playback\<close>

text \<open>
  \<open>playNextChunk\<close> reads the playback clock once; the reading is the parameter \<open>now\<close>.
  The queue is shifted and the flags are set before \<open>ctx.createBuffer\<close> is called, which
  raises when the context is \<open>null\<close> or the block has no frame, so these updates remain
  when the call raises.
\<close>

definition playNextChunk :: "real \<Rightarrow> hook \<Rightarrow> js_error option \<times> hook" where
  "playNextChunk now s =
     (case audioQueue s of
        [] \<Rightarrow> (None, s\<lparr>isPlaying := False, isSpeaking := False\<rparr>)
      | audioData # rest \<Rightarrow>
          (let s1 = s\<lparr>isPlaying := True, isSpeaking := True, audioQueue := rest\<rparr>
           in if \<not> audioContext s1 then (Some TypeError, s1)
              else if length audioData = 0 then (Some NotSupportedError, s1)
              else
                (let duration = real (length audioData) / 24000;
                     s2 = (if scheduledTime s1 < now then s1\<lparr>scheduledTime := now\<rparr> else s1);
                     s3 = s2\<lparr>started := started s2 @ [(audioData, scheduledTime s2)]\<rparr>
                 in (None, s3\<lparr>scheduledTime := scheduledTime s3 + duration\<rparr>))))"

definition enqueueAudio :: "real \<Rightarrow> real list \<Rightarrow> hook \<Rightarrow> js_error option \<times> hook" where
  "enqueueAudio now audioData s =
     (let s1 = s\<lparr>audioQueue := audioQueue s @ [audioData]\<rparr>
      in if \<not> isPlaying s1 then playNextChunk now s1 else (None, s1))"

definition clearAudioQueue :: "hook \<Rightarrow> hook" where
  "clearAudioQueue s = s\<lparr>audioQueue := [], scheduledTime := 0\<rparr>"

subsection \<open>Inbound messages\<close>

text \<open>
  What \<open>JSON.parse\<close> gives for an inbound message: a parse error, \<open>null\<close>, or a value
  whose optional fields are probed by \<open>onmessage\<close>.  \<open>inlineData = Some d\<close> is an
  \<open>inlineData\<close> object with the text \<open>d\<close> as its \<open>data\<close>.  The handler is taken to run to
  its end before the next event; an exception leaves it at once, so a raise while the
  audio is decoded or enqueued skips the test for an interruption.
\<close>

record part =
  inlineData :: "string option"

record modelTurn =
  parts :: "part list option"

record serverContent =
  modelTurn :: "modelTurn option"
  interrupted :: bool

datatype inbound = Unparsable | JsonNull | Data "serverContent option"

definition firstInlineData :: "serverContent option \<Rightarrow> string option" where
  "firstInlineData sc =
     (case sc of
        None \<Rightarrow> None
      | Some c \<Rightarrow>
          (case modelTurn c of
             None \<Rightarrow> None
           | Some mt \<Rightarrow>
               (case parts mt of
                  None \<Rightarrow> None
                | Some [] \<Rightarrow> None
                | Some (p # _) \<Rightarrow> inlineData p)))"

definition onmessage :: "real \<Rightarrow> inbound \<Rightarrow> hook \<Rightarrow> js_error option \<times> hook" where
  "onmessage now ev s =
     (case ev of
        Unparsable \<Rightarrow> (None, addLog ''Error parsing message'' s)
      | JsonNull \<Rightarrow> (Some TypeError, s)
      | Data sc \<Rightarrow>
          (let r = (case firstInlineData sc of
                      None \<Rightarrow> (None, s)
                    | Some base64Audio \<Rightarrow>
                        (case base64ToFloat32 base64Audio of
                           Inl e \<Rightarrow> (Some e, s)
                         | Inr pcmData \<Rightarrow> enqueueAudio now pcmData s))
           in if fst r \<noteq> None then r
              else if (case sc of None \<Rightarrow> False | Some c \<Rightarrow> interrupted c)
              then (None, clearAudioQueue (addLog ''Interrupted by user'' (snd r)))
              else r))"

subsection \<open>Runs of the playback scheduler\<close>

text \<open>
  The scheduler is driven by an \<open>enqueueAudio\<close> call and by the \<open>onended\<close> callback of a
  started source, each with the clock reading at that moment; \<open>startAudioCapture\<close> sets
  \<open>audioContextRef.current\<close> when it is still \<open>null\<close>.  A handler that raises is
  abandoned; the state it has written remains.
\<close>

datatype event = EnqueueAudio real "real list" | SourceEnded real | AudioContextCreated

fun step :: "hook \<Rightarrow> event \<Rightarrow> hook" where
  "step s (EnqueueAudio now audioData) = snd (enqueueAudio now audioData s)"
| "step s (SourceEnded now) = snd (playNextChunk now s)"
| "step s AudioContextCreated = s\<lparr>audioContext := True\<rparr>"

definition run :: "event list \<Rightarrow> hook \<Rightarrow> hook" where
  "run evs s = foldl step s evs"

fun enqueued :: "event list \<Rightarrow> real list list" where
  "enqueued [] = []"
| "enqueued (EnqueueAudio now audioData # evs) = audioData # enqueued evs"
| "enqueued (SourceEnded now # evs) = enqueued evs"
| "enqueued (AudioContextCreated # evs) = enqueued evs"

fun is_ended :: "event \<Rightarrow> bool" where
  "is_ended (SourceEnded now) = True"
| "is_ended (EnqueueAudio now audioData) = False"
| "is_ended AudioContextCreated = False"

text \<open>Successive starts leave room for the block before: start plus duration at 24 kHz.\<close>

fun gapless :: "(real list \<times> real) list \<Rightarrow> bool" where
  "gapless ((b1, t1) # (b2, t2) # r) =
     (t1 + real (length b1) / 24000 \<le> t2 \<and> gapless ((b2, t2) # r))"
| "gapless [x] = True"
| "gapless [] = True"

text \<open>
  The invariant of a run: the blocks started since a state whose trace was \<open>tr0\<close> leave no
  overlap, and the cursor is not before the end of the last of them.
\<close>

definition ends_before :: "(real list \<times> real) list \<Rightarrow> real \<Rightarrow> bool" where
  "ends_before tr c = (tr = [] \<or> snd (last tr) + real (length (fst (last tr))) / 24000 \<le> c)"

definition chained :: "(real list \<times> real) list \<Rightarrow> hook \<Rightarrow> bool" where
  "chained tr0 s = (\<exists>new. started s = tr0 @ new \<and> gapless new \<and> ends_before new (scheduledTime s))"

section \<open>The emergency notification\<close>

text \<open>
  The server action \<open>sendEmergencySMS\<close>.  The environment variables are optional strings;
  a coordinate is \<open>None\<close> for \<open>null\<close>.  The parameter \<open>show_num\<close> is the platform's
  conversion of a number to text, and \<open>create\<close> is the outcome of the messaging service's
  \<open>messages.create\<close>: the message's \<open>sid\<close>, or \<open>None\<close> when the promise rejects.  The
  result is returned with the messages handed to the service.  A number is truthy
  unless it is zero (\<open>NaN\<close> is not a real).

  The client is created by \<open>twilio(accountSid, authToken)\<close> before the \<open>try\<close>, so what
  the factory throws leaves the function without a result.  With both credentials
  non-empty, the library's factory throws exactly when the account SID does not start
  with \<open>AC\<close>.
\<close>

record sms_env =
  TWILIO_ACCOUNT_SID :: "string option"
  TWILIO_AUTH_TOKEN :: "string option"
  TWILIO_PHONE_NUMBER :: "string option"
  EMERGENCY_CONTACT_NUMBER :: "string option"

record sms =
  sms_body :: string
  sms_from :: string
  sms_to :: string

record sms_result =
  success :: bool
  sid :: "string option"
  sms_error :: "string option"

definition falsy_string :: "string option \<Rightarrow> bool" where
  "falsy_string v = (case v of None \<Rightarrow> True | Some t \<Rightarrow> t = [])"

definition truthy_number :: "real option \<Rightarrow> bool" where
  "truthy_number v = (case v of None \<Rightarrow> False | Some x \<Rightarrow> x \<noteq> 0)"

definition alarm_text :: string where
  "alarm_text = map char_of [240, 159, 154, 168 :: nat] @ '' FALL DETECTED! The user may need assistance.''"

definition location_text :: "(real \<Rightarrow> string) \<Rightarrow> real \<Rightarrow> real \<Rightarrow> string" where
  "location_text show_num lat lon =
     [CHR 0x0A, CHR 0x0A] @ ''Location: https://www.google.com/maps?q='' @ show_num lat @ '','' @ show_num lon"

definition twilio_accepts :: "string \<Rightarrow> string \<Rightarrow> bool" where
  "twilio_accepts accountSid authToken = (take 2 accountSid = ''AC'')"

definition sendEmergencySMS ::
  "(real \<Rightarrow> string) \<Rightarrow> (sms \<Rightarrow> string option) \<Rightarrow> sms_env \<Rightarrow> real option \<Rightarrow> real option
     \<Rightarrow> js_error + sms_result \<times> sms list" where
  "sendEmergencySMS show_num create env latitude longitude =
     (let accountSid = TWILIO_ACCOUNT_SID env;
          authToken = TWILIO_AUTH_TOKEN env;
          fromNumber = TWILIO_PHONE_NUMBER env;
          toNumber = EMERGENCY_CONTACT_NUMBER env
      in if falsy_string accountSid \<or> falsy_string authToken \<or> falsy_string fromNumber
            \<or> falsy_string toNumber
         then Inr (\<lparr>success = False, sid = None, sms_error = Some ''Configuration missing''\<rparr>, [])
         else if \<not> twilio_accepts (the accountSid) (the authToken) then Inl LibraryError
         else
           (let messageBody =
                  (if truthy_number latitude \<and> truthy_number longitude
                   then alarm_text @ location_text show_num (the latitude) (the longitude)
                   else alarm_text);
                message = \<lparr>sms_body = messageBody, sms_from = the fromNumber, sms_to = the toNumber\<rparr>
            in (case create message of
                  Some message_sid \<Rightarrow>
                    Inr (\<lparr>success = True, sid = Some message_sid, sms_error = None\<rparr>, [message])
                | None \<Rightarrow>
                    Inr (\<lparr>success = False, sid = None, sms_error = Some ''Failed to send SMS''\<rparr>,
                         [message]))))"

section \<open>Base64 is lossless\<close>

lemma distinct_b64chars: "distinct b64chars"
  by (simp add: b64chars_def)

lemma length_b64chars: "length b64chars = 64"
  by (simp add: b64chars_def)

lemma b64val_b64char: "v < 64 \<Longrightarrow> b64val (b64char v) = Some v"
  unfolding b64val_def b64char_def
  using map_of_zip_nth[of b64chars "[0..<64]" v] distinct_b64chars length_b64chars
  by simp

lemma b64char_in: "v < 64 \<Longrightarrow> b64char v \<in> set b64chars"
  by (simp add: b64char_def length_b64chars)

lemma b64char_not_pad: "v < 64 \<Longrightarrow> b64char v \<noteq> CHR ''=''"
proof -
  have "CHR ''='' \<notin> set b64chars" by (simp add: b64chars_def)
  then show "v < 64 \<Longrightarrow> b64char v \<noteq> CHR ''=''" using b64char_in by metis
qed

lemma b64char_not_ws: "v < 64 \<Longrightarrow> \<not> ascii_ws (b64char v)"
proof -
  have "\<forall>c \<in> set b64chars. \<not> ascii_ws c" by (simp add: b64chars_def ascii_ws_def)
  then show "v < 64 \<Longrightarrow> \<not> ascii_ws (b64char v)" using b64char_in by blast
qed

lemma pad_not_ws: "\<not> ascii_ws (CHR ''='')"
  by (simp add: ascii_ws_def)

lemma sextets_bound: "\<forall>b \<in> set bs. b < 256 \<Longrightarrow> \<forall>v \<in> set (sextets bs). v < 64"
  by (induction bs rule: sextets.induct) auto

lemma unsextets_sextets: "\<forall>b \<in> set bs. b < 256 \<Longrightarrow> unsextets (sextets bs) = bs"
  by (induction bs rule: sextets.induct) auto

lemma those_b64val: "\<forall>v \<in> set vs. v < 64 \<Longrightarrow> those (map b64val (map b64char vs)) = Some vs"
  by (induction vs) (auto simp: b64val_b64char)

lemma filter_ws_encoded:
  "\<forall>v \<in> set vs. v < 64 \<Longrightarrow>
   filter (\<lambda>c. \<not> ascii_ws c) (map b64char vs @ replicate k (CHR ''='')) =
   map b64char vs @ replicate k (CHR ''='')"
  by (auto simp: filter_id_conv b64char_not_ws pad_not_ws)

lemma mod3_step: "Suc (Suc (Suc n)) mod 3 = n mod 3"
  by presburger

lemma mod4_step: "Suc (Suc (Suc (Suc n))) mod 4 = n mod 4"
  by presburger

lemma length_sextets_shape:
  "length bs mod 3 = 0 \<and> length (sextets bs) mod 4 = 0 \<or>
   length bs mod 3 = 1 \<and> length (sextets bs) mod 4 = 2 \<or>
   length bs mod 3 = 2 \<and> length (sextets bs) mod 4 = 3"
proof (induction bs rule: sextets.induct)
  case (1 a b c r)
  then show ?case
    by (simp only: sextets.simps list.size length_append mod3_step mod4_step) simp
qed simp_all

lemma length_encoded_mod4:
  "(length (sextets bs) + (3 - length bs mod 3) mod 3) mod 4 = 0"
proof -
  let ?n = "length (sextets bs)"
  have a: "Suc (Suc ?n) mod 4 = 0" if "?n mod 4 = 2" using that by presburger
  have b: "Suc ?n mod 4 = 0" if "?n mod 4 = 3" using that by presburger
  show ?thesis
    using length_sextets_shape[of bs] a b by (elim disjE conjE) simp_all
qed

lemma length_sextets_mod4: "length (sextets bs) mod 4 \<noteq> 1"
  using length_sextets_shape[of bs] by (elim disjE conjE) simp_all

lemma sextets_Nil_iff: "sextets bs = [] \<longleftrightarrow> bs = []"
  by (cases bs rule: sextets.cases) auto

lemma strip_pad_none:
  assumes "length t mod 4 = 0" and "t \<noteq> [] \<Longrightarrow> last t \<noteq> CHR ''=''"
  shows "strip_pad t = t"
proof (cases t rule: rev_cases)
  case Nil
  then show ?thesis by (simp add: strip_pad_def)
next
  case (snoc ys y)
  with assms(2) have "y \<noteq> CHR ''=''" by simp
  then show ?thesis unfolding strip_pad_def snoc
    by (cases "rev ys") simp_all
qed

lemma strip_pad_one:
  assumes "length (xs @ [y, CHR ''='']) mod 4 = 0" and "y \<noteq> CHR ''=''"
  shows "strip_pad (xs @ [y, CHR ''='']) = xs @ [y]"
  unfolding strip_pad_def using assms by simp

lemma strip_pad_two:
  assumes "length (xs @ [CHR ''='', CHR ''='']) mod 4 = 0"
  shows "strip_pad (xs @ [CHR ''='', CHR ''='']) = xs"
  unfolding strip_pad_def using assms by simp

lemma strip_pad_encoded:
  assumes "\<forall>b \<in> set bs. b < 256"
  shows "strip_pad (map b64char (sextets bs) @ replicate ((3 - length bs mod 3) mod 3) (CHR ''='')) =
         map b64char (sextets bs)"
proof -
  let ?vs = "sextets bs"
  let ?k = "(3 - length bs mod 3) mod 3"
  have bnd: "\<forall>v \<in> set ?vs. v < 64" using assms by (rule sextets_bound)
  have len: "length (map b64char ?vs @ replicate ?k (CHR ''='')) mod 4 = 0"
    using length_encoded_mod4[of bs] by simp
  have lastc: "b64char (last ?vs) \<noteq> CHR ''=''" if "?vs \<noteq> []"
    using bnd b64char_not_pad last_in_set that by blast
  consider (z) "?k = 0" | (o) "?k = 1" | (t) "?k = 2"
    by linarith
  then show ?thesis
  proof cases
    case z
    have "strip_pad (map b64char ?vs) = map b64char ?vs"
    proof (rule strip_pad_none)
      show "length (map b64char ?vs) mod 4 = 0" using len z by simp
      show "last (map b64char ?vs) \<noteq> CHR ''=''" if "map b64char ?vs \<noteq> []"
        using that lastc by (simp add: last_map)
    qed
    then show ?thesis using z by simp
  next
    case o
    then have "bs \<noteq> []" by auto
    then have ne: "?vs \<noteq> []" by (simp add: sextets_Nil_iff)
    then obtain ys y where ys: "?vs = ys @ [y]" by (metis rev_exhaust)
    from lastc[OF ne] ys have y: "b64char y \<noteq> CHR ''=''" by simp
    have e: "map b64char ?vs @ replicate ?k (CHR ''='') = map b64char ys @ [b64char y, CHR ''='']"
      using o ys by simp
    have "length (map b64char ys @ [b64char y, CHR ''='']) mod 4 = 0"
      using len unfolding e .
    from strip_pad_one[OF this y] show ?thesis by (simp only: e) (simp add: ys)
  next
    case t
    have e: "map b64char ?vs @ replicate ?k (CHR ''='') = map b64char ?vs @ [CHR ''='', CHR ''='']"
      using t by (simp add: numeral_2_eq_2)
    have "length (map b64char ?vs @ [CHR ''='', CHR ''='']) mod 4 = 0"
      using len unfolding e .
    from strip_pad_two[OF this] show ?thesis unfolding e .
  qed
qed

lemma atob_encoded:
  assumes "\<forall>v \<in> set vs. v < 64" and "length vs mod 4 \<noteq> 1"
  shows "(let t = map b64char vs
          in if length t mod 4 = 1 then Inl InvalidCharacterError
             else (case those (map b64val t) of
                 None \<Rightarrow> Inl InvalidCharacterError
               | Some us \<Rightarrow> Inr (map char_of (unsextets us)))) = Inr (map char_of (unsextets vs))"
  using assms those_b64val[OF assms(1)] by (simp add: Let_def)

lemma atob_btoa_bytes:
  assumes "\<forall>b \<in> set bs. b < (256::nat)"
  shows "atob (btoa (map char_of bs)) = Inr (map char_of bs)"
proof -
  have of: "map of_char (map char_of bs :: string) = bs"
    using assms by (induction bs) simp_all
  have bnd: "\<forall>v \<in> set (sextets bs). v < 64" using assms by (rule sextets_bound)
  have "atob (btoa (map char_of bs)) = Inr (map char_of (unsextets (sextets bs)))"
    unfolding atob_def btoa_def of
    apply (simp only: Let_def filter_ws_encoded[OF bnd] strip_pad_encoded[OF assms])
    using atob_encoded[OF bnd length_sextets_mod4] by (simp only: Let_def)
  then show ?thesis using unsextets_sextets[OF assms] by simp
qed

lemma atob_btoa: "atob (btoa s) = Inr s"
proof -
  have "\<forall>b \<in> set (map of_char s :: nat list). b < 256" by simp
  from atob_btoa_bytes[OF this] show ?thesis by (simp add: comp_def)
qed

section \<open>The codec after a round trip\<close>

lemma toInt16_range: "- 32768 \<le> toInt16 k \<and> toInt16 k \<le> 32767"
proof -
  have "0 \<le> (k + 32768) mod 65536" and "(k + 32768) mod 65536 < 65536" by simp_all
  then show ?thesis unfolding toInt16_def by linarith
qed

lemma toInt16_id: "- 32768 \<le> k \<Longrightarrow> k \<le> 32767 \<Longrightarrow> toInt16 k = k"
  unfolding toInt16_def by simp

lemma of_char_char_of_bytes:
  "\<forall>b \<in> set bs. b < (256::nat) \<Longrightarrow> map of_char (map char_of bs :: string) = bs"
  by (induction bs) simp_all

lemma nat_mod_256: "nat (k mod 256) < 256"
proof -
  have "0 \<le> k mod 256" and "k mod 256 < 256" by simp_all
  then show ?thesis by linarith
qed

lemma int16_bytes_bound: "\<forall>b \<in> set (int16_bytes q). b < 256"
  unfolding int16_bytes_def using nat_mod_256 by simp

lemma int16_bytes_join:
  assumes "- 32768 \<le> q" "q \<le> 32767"
  shows "toInt16 (q mod 256 + 256 * (q div 256 mod 256)) = q"
proof -
  have "q mod (256 * 256) = 256 * (q div 256 mod 256) + q mod 256"
    by (rule zmod_zmult2_eq) simp
  then have e: "q mod 256 + 256 * (q div 256 mod 256) = q mod 65536" by simp
  have "(q mod 65536 + 32768) mod 65536 = (q + 32768) mod 65536"
    by (rule mod_add_left_eq)
  also have "\<dots> = q + 32768" using assms by simp
  finally show ?thesis unfolding toInt16_def e by simp
qed

lemma int16_view_bytes:
  "\<forall>q \<in> set qs. - 32768 \<le> q \<and> q \<le> 32767 \<Longrightarrow>
   int16_view (concat (map int16_bytes qs)) = qs"
  by (induction qs) (simp_all add: int16_bytes_def int16_bytes_join)

lemma length_concat_int16_bytes: "length (concat (map int16_bytes qs)) = 2 * length qs"
  by (induction qs) (simp_all add: int16_bytes_def)

lemma concat_int16_bytes_bound: "\<forall>b \<in> set (concat (map int16_bytes qs)). b < 256"
  using int16_bytes_bound by auto

lemma pcm16_of_range: "- 32768 \<le> pcm16_of x \<and> pcm16_of x \<le> 32767"
  unfolding pcm16_of_def Let_def by (rule toInt16_range)

lemma decode_encode:
  "base64ToFloat32 (float32ToBase64 xs) = Inr (map (\<lambda>x. real_of_int (pcm16_of x) / 32768) xs)"
proof -
  let ?qs = "map pcm16_of xs"
  let ?bs = "concat (map int16_bytes ?qs)"
  have bnd: "\<forall>b \<in> set ?bs. b < 256" by (rule concat_int16_bytes_bound)
  have a: "atob (float32ToBase64 xs) = Inr (map char_of ?bs)"
    unfolding float32ToBase64_def Let_def by (rule atob_btoa_bytes[OF bnd])
  have of: "map of_char (map char_of ?bs :: string) = ?bs"
    using bnd by (rule of_char_char_of_bytes)
  have ev: "\<not> odd (length ?bs)" unfolding length_concat_int16_bytes by simp
  have vw: "int16_view ?bs = ?qs"
    by (rule int16_view_bytes) (simp add: pcm16_of_range)
  show ?thesis
    unfolding base64ToFloat32_def a sum.case Let_def of using ev vw
    by (simp add: comp_def)
qed


lemma scale_range:
  fixes s :: real
  assumes "- 1 \<le> s" "s \<le> 1"
  shows "- 32768 \<le> (if s < 0 then \<lceil>s * 32768\<rceil> else \<lfloor>s * 32767\<rfloor>)"
    and "(if s < 0 then \<lceil>s * 32768\<rceil> else \<lfloor>s * 32767\<rfloor>) \<le> 32767"
proof -
  have "- 32768 \<le> \<lceil>s * 32768\<rceil>" using assms by (simp add: le_ceiling_iff)
  moreover have "- 32768 \<le> \<lfloor>s * 32767\<rfloor>" if "\<not> s < 0" using that by (simp add: le_floor_iff)
  ultimately show "- 32768 \<le> (if s < 0 then \<lceil>s * 32768\<rceil> else \<lfloor>s * 32767\<rfloor>)" by simp
  have "\<lceil>s * 32768\<rceil> \<le> 32767" if "s < 0" using that by (simp add: ceiling_le_iff)
  moreover have "\<lfloor>s * 32767\<rfloor> \<le> 32767" using assms by (simp add: floor_le_iff)
  ultimately show "(if s < 0 then \<lceil>s * 32768\<rceil> else \<lfloor>s * 32767\<rfloor>) \<le> 32767" by simp
qed

lemma pcm16_of_scale:
  "pcm16_of x = (let s = max (- 1) (min 1 x) in if s < 0 then \<lceil>s * 32768\<rceil> else \<lfloor>s * 32767\<rfloor>)"
proof -
  let ?s = "max (- 1) (min 1 x)"
  have r: "- 1 \<le> ?s" "?s \<le> 1" by simp_all
  have "trunc_toward_zero (if ?s < 0 then ?s * 32768 else ?s * 32767) =
        (if ?s < 0 then \<lceil>?s * 32768\<rceil> else \<lfloor>?s * 32767\<rfloor>)"
  proof (cases "?s < 0")
    case True
    then have "?s * 32768 < 0" by linarith
    with True show ?thesis unfolding trunc_toward_zero_def by simp
  next
    case False
    then have "\<not> ?s * 32767 < 0" by linarith
    with False show ?thesis unfolding trunc_toward_zero_def by simp
  qed
  then show ?thesis
    unfolding pcm16_of_def Let_def using toInt16_id[OF scale_range[OF r]] by simp
qed

lemma pcm16_of_neg:
  assumes "- 1 \<le> x" "x < 0"
  shows "0 \<le> real_of_int (pcm16_of x) / 32768 - x" and "real_of_int (pcm16_of x) / 32768 - x < 1 / 32768"
proof -
  have s: "max (- 1) (min 1 x) = x" using assms by simp
  have q: "pcm16_of x = \<lceil>x * 32768\<rceil>" unfolding pcm16_of_scale s Let_def using assms by simp
  have "x * 32768 \<le> real_of_int \<lceil>x * 32768\<rceil>" by (rule le_of_int_ceiling)
  then show "0 \<le> real_of_int (pcm16_of x) / 32768 - x" unfolding q by simp
  have "real_of_int \<lceil>x * 32768\<rceil> < x * 32768 + 1" by (rule ceiling_correct[THEN conjunct1, simplified] | linarith)
  then show "real_of_int (pcm16_of x) / 32768 - x < 1 / 32768" unfolding q by simp
qed

lemma pcm16_of_nonneg:
  assumes "0 \<le> x" "x \<le> 1"
  shows "0 \<le> x - real_of_int (pcm16_of x) / 32768" and "x - real_of_int (pcm16_of x) / 32768 < (1 + x) / 32768"
proof -
  have s: "max (- 1) (min 1 x) = x" using assms by simp
  have q: "pcm16_of x = \<lfloor>x * 32767\<rfloor>" unfolding pcm16_of_scale s Let_def using assms by simp
  have "real_of_int \<lfloor>x * 32767\<rfloor> \<le> x * 32767" by (rule of_int_floor_le)
  then have "real_of_int \<lfloor>x * 32767\<rfloor> \<le> x * 32768" using assms by linarith
  then show "0 \<le> x - real_of_int (pcm16_of x) / 32768" unfolding q by simp
  have "x * 32767 < real_of_int \<lfloor>x * 32767\<rfloor> + 1" by linarith
  then show "x - real_of_int (pcm16_of x) / 32768 < (1 + x) / 32768" unfolding q by (simp add: field_simps)
qed

lemma pcm16_of_one: "pcm16_of 1 = 32767"
  unfolding pcm16_of_scale by simp

lemma pcm16_of_minus_one: "pcm16_of (- 1) = - 32768"
  unfolding pcm16_of_scale by simp

lemma pcm16_of_zero: "pcm16_of 0 = 0"
  unfolding pcm16_of_scale by simp

lemma pcm16_of_cex: "pcm16_of (65535 / 65536) = 32766"
  unfolding pcm16_of_scale by simp

text \<open>
  Claim C2.  \<open>float32ToBase64\<close> clamps every sample to \<open>[-1, 1]\<close>, scales a negative sample
  by 32768 and a non-negative one by 32767 (truncating towards zero), which fits a signed
  16-bit integer without wrap-around, and frames the little-endian bytes as base64 text:
  \<open>atob\<close> gives these bytes back.  Decoding divides each integer by 32768.  The block
  \<open>[1.0, -1.0]\<close> decodes to \<open>[32767/32768, -1]\<close>, the first at least 0.99996, and a block of
  zeros of any length decodes to zeros.
\<close>

theorem codec_scaling:
  fixes xs :: "real list" and x :: real and n :: nat
  shows "let scale = (\<lambda>x::real. let s = max (- 1) (min 1 x)
                                in if s < 0 then \<lceil>s * 32768\<rceil> else \<lfloor>s * 32767\<rfloor>)
         in atob (float32ToBase64 xs) = Inr (map char_of (concat (map (\<lambda>x. int16_bytes (scale x)) xs)))
          \<and> - 32768 \<le> scale x \<and> scale x \<le> 32767
          \<and> base64ToFloat32 (float32ToBase64 xs) = Inr (map (\<lambda>x. real_of_int (scale x) / 32768) xs)
          \<and> base64ToFloat32 (float32ToBase64 [1, - 1]) = Inr [32767 / 32768, - 1]
          \<and> (99996 / 100000 :: real) \<le> 32767 / 32768
          \<and> base64ToFloat32 (float32ToBase64 (replicate n 0)) = Inr (replicate n 0)"
proof -
  have a: "atob (float32ToBase64 xs) = Inr (map char_of (concat (map (\<lambda>x. int16_bytes (pcm16_of x)) xs)))"
    unfolding float32ToBase64_def Let_def
    using atob_btoa_bytes[OF concat_int16_bytes_bound[of "map pcm16_of xs"]] by (simp add: comp_def)
  have r: "- 32768 \<le> pcm16_of x \<and> pcm16_of x \<le> 32767" by (rule pcm16_of_range)
  have p: "base64ToFloat32 (float32ToBase64 [1, - 1]) = Inr [32767 / 32768, - 1]"
    unfolding decode_encode by (simp add: pcm16_of_one pcm16_of_minus_one)
  have z: "base64ToFloat32 (float32ToBase64 (replicate n 0)) = Inr (replicate n 0)"
    unfolding decode_encode by (simp add: pcm16_of_zero)
  have c: "(99996 / 100000 :: real) \<le> 32767 / 32768" by simp
  from a r p z c decode_encode[of xs] show ?thesis
    unfolding Let_def pcm16_of_scale[unfolded Let_def, symmetric] by simp
qed

text \<open>
  Claim C1, as stated, fails: the sample \<open>65535/65536\<close> (a 32-bit float in \<open>[-1, 1]\<close>) is
  encoded as 32766 and decoded as \<open>32766/32768\<close>, which is \<open>3/65536\<close> away from it, more
  than \<open>1/32768\<close>.
\<close>

theorem roundtrip_bound_counterexample:
  "base64ToFloat32 (float32ToBase64 [65535 / 65536]) = Inr [32766 / 32768]
   \<and> (1 / 32768 :: real) < \<bar>32766 / 32768 - 65535 / 65536\<bar>
   \<and> - 1 \<le> (65535 / 65536 :: real) \<and> (65535 / 65536 :: real) \<le> 1"
  unfolding decode_encode by (simp add: pcm16_of_cex)

text \<open>
  Claim C1, amended.  For every sample array with all values in \<open>[-1, 1]\<close>, decoding the
  encoded array succeeds with an array of the same length, and every decoded sample is
  less than \<open>2/32768\<close> away from the original: a negative sample \<open>x\<close> decodes to a value
  in \<open>[x, x + 1/32768)\<close>, a non-negative sample \<open>x\<close> to a value in
  \<open>(x - (1 + x)/32768, x]\<close>.
\<close>

theorem roundtrip_quantization_bound:
  assumes "\<forall>x \<in> set xs. - 1 \<le> x \<and> x \<le> 1"
  shows "\<exists>ys. base64ToFloat32 (float32ToBase64 xs) = Inr ys \<and>
           list_all2 (\<lambda>y x. \<bar>y - x\<bar> < 2 / 32768 \<and>
                       (if x < 0 then 0 \<le> y - x \<and> y - x < 1 / 32768
                        else 0 \<le> x - y \<and> x - y < (1 + x) / 32768)) ys xs"
proof -
  let ?d = "\<lambda>x. real_of_int (pcm16_of x) / 32768"
  have one: "\<bar>?d x - x\<bar> < 2 / 32768 \<and>
             (if x < 0 then 0 \<le> ?d x - x \<and> ?d x - x < 1 / 32768
              else 0 \<le> x - ?d x \<and> x - ?d x < (1 + x) / 32768)"
    if "- 1 \<le> x" "x \<le> 1" for x
  proof (cases "x < 0")
    case True
    from pcm16_of_neg[OF that(1) True] show ?thesis using True by simp
  next
    case False
    then have "0 \<le> x" by simp
    from pcm16_of_nonneg[OF this that(2)] show ?thesis using False that(2) by simp
  qed
  have "list_all2 (\<lambda>y x. \<bar>y - x\<bar> < 2 / 32768 \<and>
                       (if x < 0 then 0 \<le> y - x \<and> y - x < 1 / 32768
                        else 0 \<le> x - y \<and> x - y < (1 + x) / 32768)) (map ?d xs) xs"
    unfolding list_all2_map1 list_all2_same using assms one by blast
  then show ?thesis unfolding decode_encode by blast
qed

theorem roundtrip_quantization_bound_witness:
  "- 1 \<le> (65535 / 65536 :: real) \<and> (65535 / 65536 :: real) \<le> 1 \<and> - 1 \<le> (- 1 / 2 :: real) \<and> (- 1 / 2 :: real) \<le> 1 \<and>
   (\<exists>ys. base64ToFloat32 (float32ToBase64 [65535 / 65536, - 1 / 2]) = Inr ys \<and>
           list_all2 (\<lambda>y x. \<bar>y - x\<bar> < 2 / 32768 \<and>
                       (if x < 0 then 0 \<le> y - x \<and> y - x < 1 / 32768
                        else 0 \<le> x - y \<and> x - y < (1 + x) / 32768)) ys [65535 / 65536, - 1 / 2])"
  using roundtrip_quantization_bound[of "[65535 / 65536, - 1 / 2]"] by simp

section \<open>The playback scheduler\<close>

subsection \<open>One call of the playback loop\<close>

lemma playNextChunk_empty:
  "audioQueue s = [] \<Longrightarrow> playNextChunk now s = (None, s\<lparr>isPlaying := False, isSpeaking := False\<rparr>)"
  by (simp add: playNextChunk_def)

lemma playNextChunk_scheduled:
  assumes "audioQueue s = b # rest" and "audioContext s" and "b \<noteq> []"
  shows "playNextChunk now s =
           (None, s\<lparr>isPlaying := True, isSpeaking := True, audioQueue := rest,
                     scheduledTime := max (scheduledTime s) now + real (length b) / 24000,
                     started := started s @ [(b, max (scheduledTime s) now)]\<rparr>)"
  using assms by (simp add: playNextChunk_def Let_def max_def)

lemma playNextChunk_raises:
  assumes "audioQueue s = b # rest" and "\<not> audioContext s \<or> b = []"
  shows "playNextChunk now s =
           (Some (if \<not> audioContext s then TypeError else NotSupportedError),
            s\<lparr>isPlaying := True, isSpeaking := True, audioQueue := rest\<rparr>)"
  using assms by (auto simp add: playNextChunk_def Let_def)

lemma enqueueAudio_playing:
  "isPlaying s \<Longrightarrow> enqueueAudio now b s = (None, s\<lparr>audioQueue := audioQueue s @ [b]\<rparr>)"
  by (simp add: enqueueAudio_def Let_def)

lemma enqueueAudio_idle:
  "\<not> isPlaying s \<Longrightarrow> enqueueAudio now b s = playNextChunk now (s\<lparr>audioQueue := audioQueue s @ [b]\<rparr>)"
  by (simp add: enqueueAudio_def Let_def)

lemma playNextChunk_cases:
  obtains (idle) "audioQueue s = []"
      "snd (playNextChunk now s) = s\<lparr>isPlaying := False, isSpeaking := False\<rparr>"
  | (raised) b rest where "audioQueue s = b # rest" "\<not> audioContext s \<or> b = []"
      "snd (playNextChunk now s) = s\<lparr>isPlaying := True, isSpeaking := True, audioQueue := rest\<rparr>"
  | (scheduled) b rest where "audioQueue s = b # rest" "audioContext s" "b \<noteq> []"
      "snd (playNextChunk now s) =
         s\<lparr>isPlaying := True, isSpeaking := True, audioQueue := rest,
           scheduledTime := max (scheduledTime s) now + real (length b) / 24000,
           started := started s @ [(b, max (scheduledTime s) now)]\<rparr>"
proof (cases "audioQueue s")
  case Nil
  then show ?thesis using idle playNextChunk_empty by simp
next
  case (Cons b rest)
  show ?thesis
  proof (cases "audioContext s \<and> b \<noteq> []")
    case True
    then show ?thesis using scheduled[OF Cons] playNextChunk_scheduled[OF Cons] by simp
  next
    case False
    then have "\<not> audioContext s \<or> b = []" by simp
    then show ?thesis using raised[OF Cons] playNextChunk_raises[OF Cons] by simp
  qed
qed

text \<open>
  Claim C3.  When \<open>playNextChunk\<close> schedules a block (the queue's head \<open>b\<close>, with an audio
  context and at least one sample): the cursor is first raised to \<open>now\<close> if it was below,
  the block starts exactly at the cursor, and the cursor then advances by
  \<open>length b / 24000\<close>.  So a block enqueued while the scheduler is idle with a cursor
  behind the clock starts at \<open>now\<close>.
\<close>

theorem catch_up_scheduling:
  assumes "audioContext s" and "b \<noteq> []"
  shows "(audioQueue s = b # rest \<longrightarrow>
            playNextChunk now s =
              (None, s\<lparr>isPlaying := True, isSpeaking := True, audioQueue := rest,
                        scheduledTime := (if scheduledTime s < now then now else scheduledTime s)
                                           + real (length b) / 24000,
                        started := started s @ [(b, if scheduledTime s < now then now else scheduledTime s)]\<rparr>))
       \<and> (\<not> isPlaying s \<and> audioQueue s = [] \<and> scheduledTime s < now \<longrightarrow>
            started (snd (enqueueAudio now b s)) = started s @ [(b, now)]
            \<and> scheduledTime (snd (enqueueAudio now b s)) = now + real (length b) / 24000)"
proof (intro conjI impI)
  assume q: "audioQueue s = b # rest"
  from playNextChunk_scheduled[OF q assms] show "playNextChunk now s =
              (None, s\<lparr>isPlaying := True, isSpeaking := True, audioQueue := rest,
                        scheduledTime := (if scheduledTime s < now then now else scheduledTime s)
                                           + real (length b) / 24000,
                        started := started s @ [(b, if scheduledTime s < now then now else scheduledTime s)]\<rparr>)"
    by (simp add: max_def)
next
  assume a: "\<not> isPlaying s \<and> audioQueue s = [] \<and> scheduledTime s < now"
  let ?s1 = "s\<lparr>audioQueue := audioQueue s @ [b]\<rparr>"
  have q: "audioQueue ?s1 = b # []" using a by simp
  have c: "audioContext ?s1" using assms(1) by simp
  have e: "enqueueAudio now b s = playNextChunk now ?s1" using a by (simp add: enqueueAudio_idle)
  show "started (snd (enqueueAudio now b s)) = started s @ [(b, now)]"
    unfolding e playNextChunk_scheduled[OF q c assms(2)] using a by simp
  show "scheduledTime (snd (enqueueAudio now b s)) = now + real (length b) / 24000"
    unfolding e playNextChunk_scheduled[OF q c assms(2)] using a by simp
qed

theorem catch_up_scheduling_witness:
  "playNextChunk 2 (initial\<lparr>audioContext := True, scheduledTime := 1, audioQueue := [[1/2, 1/4], [1/8]]\<rparr>)
     = (None, initial\<lparr>audioContext := True, isPlaying := True, isSpeaking := True, audioQueue := [[1/8]],
                       scheduledTime := 2 + 2 / 24000, started := [([1/2, 1/4], 2)]\<rparr>)
   \<and> started (snd (enqueueAudio 2 [1/2, 1/4] (initial\<lparr>audioContext := True, scheduledTime := 1\<rparr>)))
       = [([1/2, 1/4], 2)]
   \<and> scheduledTime (snd (enqueueAudio 2 [1/2, 1/4] (initial\<lparr>audioContext := True, scheduledTime := 1\<rparr>)))
       = 2 + 2 / 24000"
  using catch_up_scheduling[of "initial\<lparr>audioContext := True, scheduledTime := 1, audioQueue := [[1/2, 1/4], [1/8]]\<rparr>"
          "[1/2, 1/4]" "[[1/8]]" 2]
        catch_up_scheduling[of "initial\<lparr>audioContext := True, scheduledTime := 1\<rparr>" "[1/2, 1/4]" "[]" 2]
  by (simp add: initial_def)

subsection \<open>Runs\<close>

lemma run_Nil: "run [] s = s"
  by (simp add: run_def)

lemma run_snoc: "run (evs @ [e]) s = step (run evs s) e"
  by (simp add: run_def)

lemma run_append: "run (evs @ evs') s = run evs' (run evs s)"
  by (simp add: run_def)

lemma run_Cons: "run (e # evs) s = run evs (step s e)"
  by (simp add: run_def)

lemma gapless_snoc:
  "gapless tr \<Longrightarrow> ends_before tr t \<Longrightarrow> gapless (tr @ [(b, t)])"
proof (induction tr rule: gapless.induct)
  case (1 b1 t1 b2 t2 r)
  then show ?case by (simp add: ends_before_def)
next
  case (2 x)
  then show ?case by (cases x) (simp add: ends_before_def)
next
  case 3
  then show ?case by simp
qed

lemma playNextChunk_cursor_mono: "scheduledTime s \<le> scheduledTime (snd (playNextChunk now s))"
  by (rule playNextChunk_cases[where s=s and now=now]) simp_all

lemma enqueueAudio_cursor_mono: "scheduledTime s \<le> scheduledTime (snd (enqueueAudio now b s))"
proof (cases "isPlaying s")
  case True
  then show ?thesis by (simp add: enqueueAudio_playing)
next
  case False
  then show ?thesis
    using playNextChunk_cursor_mono[of "s\<lparr>audioQueue := audioQueue s @ [b]\<rparr>" now]
    by (simp add: enqueueAudio_idle)
qed

lemma step_cursor_mono: "scheduledTime s \<le> scheduledTime (step s e)"
  by (cases e) (simp_all add: playNextChunk_cursor_mono enqueueAudio_cursor_mono)

lemma run_cursor_mono: "scheduledTime s \<le> scheduledTime (run evs s)"
proof (induction evs rule: rev_induct)
  case Nil
  then show ?case by (simp add: run_Nil)
next
  case (snoc e evs)
  then show ?case using step_cursor_mono[of "run evs s" e] by (simp add: run_snoc)
qed

lemma chained_playNextChunk:
  assumes "chained tr0 s"
  shows "chained tr0 (snd (playNextChunk now s))"
proof -
  from assms obtain new where n: "started s = tr0 @ new" "gapless new" "ends_before new (scheduledTime s)"
    unfolding chained_def by blast
  show ?thesis
  proof (rule playNextChunk_cases[where s=s and now=now])
    assume "audioQueue s = []"
      and "snd (playNextChunk now s) = s\<lparr>isPlaying := False, isSpeaking := False\<rparr>"
    then show ?thesis using n unfolding chained_def by simp
  next
    fix b rest
    assume "snd (playNextChunk now s) = s\<lparr>isPlaying := True, isSpeaking := True, audioQueue := rest\<rparr>"
    then show ?thesis using n unfolding chained_def by simp
  next
    fix b rest
    assume sch: "snd (playNextChunk now s) =
         s\<lparr>isPlaying := True, isSpeaking := True, audioQueue := rest,
           scheduledTime := max (scheduledTime s) now + real (length b) / 24000,
           started := started s @ [(b, max (scheduledTime s) now)]\<rparr>"
    let ?t = "max (scheduledTime s) now"
    have "ends_before new ?t" using n(3) unfolding ends_before_def by auto
    then have g: "gapless (new @ [(b, ?t)])" using n(2) by (simp add: gapless_snoc)
    have e: "ends_before (new @ [(b, ?t)]) (?t + real (length b) / 24000)"
      unfolding ends_before_def by simp
    show ?thesis unfolding chained_def sch
      using n(1) g e by (intro exI[of _ "new @ [(b, ?t)]"]) simp
  qed
qed

lemma chained_enqueueAudio:
  assumes "chained tr0 s"
  shows "chained tr0 (snd (enqueueAudio now b s))"
proof (cases "isPlaying s")
  case True
  then show ?thesis using assms by (simp add: enqueueAudio_playing chained_def)
next
  case False
  have "chained tr0 (s\<lparr>audioQueue := audioQueue s @ [b]\<rparr>)" using assms by (simp add: chained_def)
  from chained_playNextChunk[OF this] show ?thesis using False by (simp add: enqueueAudio_idle)
qed

lemma chained_step:
  assumes "chained tr0 s"
  shows "chained tr0 (step s e)"
proof (cases e)
  case (EnqueueAudio now b)
  then show ?thesis using chained_enqueueAudio[OF assms] by simp
next
  case (SourceEnded now)
  then show ?thesis using chained_playNextChunk[OF assms] by simp
next
  case AudioContextCreated
  then show ?thesis using assms by (simp add: chained_def)
qed

lemma chained_run: "chained tr0 s \<Longrightarrow> chained tr0 (run evs s)"
proof (induction evs rule: rev_induct)
  case Nil
  then show ?case by (simp add: run_Nil)
next
  case (snoc e evs)
  then show ?case by (simp add: run_snoc chained_step)
qed

lemma chained_start: "chained (started s) s"
  unfolding chained_def ends_before_def by (intro exI[of _ "[]"]) simp

text \<open>
  Claim C5.  Along every sequence of \<open>enqueueAudio\<close> calls and playback-loop steps (no
  \<open>clearAudioQueue\<close> among them), from any state: the cursor never decreases from one
  prefix of the sequence to a longer one, and among the blocks scheduled during the
  sequence each starts no earlier than the start of the one before plus that one's
  duration.  From the hook's initial state this covers every block ever scheduled.
\<close>

theorem monotonic_cursor:
  "scheduledTime (run evs s) \<le> scheduledTime (run (evs @ evs') s)
   \<and> (\<exists>new. started (run evs s) = started s @ new \<and> gapless new)
   \<and> gapless (started (run evs initial))"
proof (intro conjI)
  show "scheduledTime (run evs s) \<le> scheduledTime (run (evs @ evs') s)"
    unfolding run_append by (rule run_cursor_mono)
  from chained_run[OF chained_start, where evs=evs and s=s]
  show "\<exists>new. started (run evs s) = started s @ new \<and> gapless new"
    unfolding chained_def by blast
  from chained_run[OF chained_start, where evs=evs and s=initial]
  show "gapless (started (run evs initial))"
    unfolding chained_def by (auto simp add: initial_def)
qed

subsection \<open>Interruption\<close>

lemma clearAudioQueue_cursor_forgotten:
  "clearAudioQueue (s\<lparr>scheduledTime := c\<rparr>) = clearAudioQueue s"
  by (simp add: clearAudioQueue_def)

lemma onmessage_interrupted:
  assumes "interrupted c" and "fst (onmessage t (Data (Some c)) s) = None"
  shows "audioQueue (snd (onmessage t (Data (Some c)) s)) = []"
    and "scheduledTime (snd (onmessage t (Data (Some c)) s)) = 0"
  using assms unfolding onmessage_def Let_def
  by (auto simp add: clearAudioQueue_def addLog_def split: option.splits sum.splits if_splits)

text \<open>
  Claim C4.  After \<open>clearAudioQueue\<close> the queue is empty and the cursor is zero; so it is
  after \<open>onmessage\<close> has handled a message with \<open>serverContent.interrupted\<close> (whenever the
  handler gets that far).  A block enqueued afterwards, with an audio context, at least
  one sample and a clock reading \<open>now \<ge> 0\<close>, starts at \<open>now\<close>: at once when the player
  is idle; when a source is still in flight, the block waits in the queue and starts at
  the clock reading of the playback loop that takes it.  The cursor before the
  interruption has no effect on anything later.
\<close>

theorem interruption_flush:
  assumes "audioContext s" and "b \<noteq> []" and "0 \<le> now"
  shows "audioQueue (clearAudioQueue s) = [] \<and> scheduledTime (clearAudioQueue s) = 0
    \<and> onmessage t (Data (Some \<lparr>modelTurn = None, interrupted = True\<rparr>)) s
        = (None, clearAudioQueue (addLog ''Interrupted by user'' s))
    \<and> (interrupted c \<and> fst (onmessage t (Data (Some c)) s) = None \<longrightarrow>
          audioQueue (snd (onmessage t (Data (Some c)) s)) = []
          \<and> scheduledTime (snd (onmessage t (Data (Some c)) s)) = 0)
    \<and> (\<not> isPlaying s \<longrightarrow>
          started (snd (enqueueAudio now b (clearAudioQueue s))) = started s @ [(b, now)])
    \<and> (isPlaying s \<longrightarrow>
          enqueueAudio t b (clearAudioQueue s) = (None, (clearAudioQueue s)\<lparr>audioQueue := [b]\<rparr>)
          \<and> started (snd (playNextChunk now ((clearAudioQueue s)\<lparr>audioQueue := [b]\<rparr>)))
              = started s @ [(b, now)])
    \<and> run evs (clearAudioQueue (s\<lparr>scheduledTime := stale\<rparr>)) = run evs (clearAudioQueue s)"
proof -
  let ?s = "clearAudioQueue s"
  let ?q = "?s\<lparr>audioQueue := [b]\<rparr>"
  have q: "audioQueue ?q = b # []" by simp
  have c: "audioContext ?q" using assms(1) by (simp add: clearAudioQueue_def)
  have p: "started (snd (playNextChunk now ?q)) = started s @ [(b, now)]"
    unfolding playNextChunk_scheduled[OF q c assms(2)] using assms(3)
    by (simp add: clearAudioQueue_def)
  have idle: "started (snd (enqueueAudio now b ?s)) = started s @ [(b, now)]" if "\<not> isPlaying s"
  proof -
    have "enqueueAudio now b ?s = playNextChunk now ?q"
      using that by (simp add: enqueueAudio_idle clearAudioQueue_def)
    then show ?thesis using p by simp
  qed
  have busy: "enqueueAudio t b ?s = (None, ?q)" if "isPlaying s"
    using that by (simp add: enqueueAudio_playing clearAudioQueue_def)
  have m: "onmessage t (Data (Some \<lparr>modelTurn = None, interrupted = True\<rparr>)) s
        = (None, clearAudioQueue (addLog ''Interrupted by user'' s))"
    by (simp add: onmessage_def firstInlineData_def)
  show ?thesis
    using idle busy p m onmessage_interrupted[of c t s]
    by (simp add: clearAudioQueue_cursor_forgotten) (simp add: clearAudioQueue_def)
qed

theorem interruption_flush_witness:
  "audioQueue (clearAudioQueue (initial\<lparr>audioContext := True, scheduledTime := 9, audioQueue := [[1/8]]\<rparr>)) = []
   \<and> scheduledTime (clearAudioQueue (initial\<lparr>audioContext := True, scheduledTime := 9, audioQueue := [[1/8]]\<rparr>)) = 0
   \<and> started (snd (enqueueAudio 2 [1/2] (clearAudioQueue (initial\<lparr>audioContext := True, scheduledTime := 9, audioQueue := [[1/8]]\<rparr>))))
        = [([1/2], 2)]
   \<and> started (snd (playNextChunk 2
        ((clearAudioQueue (initial\<lparr>audioContext := True, isPlaying := True, scheduledTime := 9, audioQueue := [[1/8]]\<rparr>))
           \<lparr>audioQueue := [[1/2]]\<rparr>))) = [([1/2], 2)]
   \<and> audioQueue (snd (onmessage 0 (Data (Some \<lparr>modelTurn = None, interrupted = True\<rparr>))
         (initial\<lparr>audioContext := True, scheduledTime := 9, audioQueue := [[1/8]]\<rparr>))) = []"
  using interruption_flush[of "initial\<lparr>audioContext := True, scheduledTime := 9, audioQueue := [[1/8]]\<rparr>"
          "[1/2]" 2 0 "\<lparr>modelTurn = None, interrupted = True\<rparr>" "[]" 0]
        interruption_flush[of "initial\<lparr>audioContext := True, isPlaying := True, scheduledTime := 9, audioQueue := [[1/8]]\<rparr>"
          "[1/2]" 2 0 "\<lparr>modelTurn = None, interrupted = True\<rparr>" "[]" 0]
  by (simp add: initial_def onmessage_def firstInlineData_def clearAudioQueue_def addLog_def
      enqueueAudio_def playNextChunk_def Let_def)

subsection \<open>Order of output\<close>

text \<open>
  While no call of the playback loop raises (there is an audio context and no block is
  empty), the blocks started followed by the blocks still queued are the blocks enqueued,
  in their order.
\<close>

lemma playNextChunk_audioContext: "audioContext (snd (playNextChunk now s)) = audioContext s"
  by (rule playNextChunk_cases[where s=s and now=now]) simp_all

lemma fifo_playNextChunk:
  assumes "audioContext s" and "\<forall>b \<in> set (audioQueue s). b \<noteq> []"
  shows "map fst (started (snd (playNextChunk now s))) @ audioQueue (snd (playNextChunk now s))
           = map fst (started s) @ audioQueue s"
    and "\<forall>b \<in> set (audioQueue (snd (playNextChunk now s))). b \<noteq> []"
proof -
  have "map fst (started (snd (playNextChunk now s))) @ audioQueue (snd (playNextChunk now s))
           = map fst (started s) @ audioQueue s
        \<and> (\<forall>b \<in> set (audioQueue (snd (playNextChunk now s))). b \<noteq> [])"
  proof (rule playNextChunk_cases[where s=s and now=now])
    assume "audioQueue s = []"
      and "snd (playNextChunk now s) = s\<lparr>isPlaying := False, isSpeaking := False\<rparr>"
    then show ?thesis by simp
  next
    fix b rest
    assume "audioQueue s = b # rest" and "\<not> audioContext s \<or> b = []"
    then show ?thesis using assms by simp
  next
    fix b rest
    assume "audioQueue s = b # rest"
      and "snd (playNextChunk now s) =
         s\<lparr>isPlaying := True, isSpeaking := True, audioQueue := rest,
           scheduledTime := max (scheduledTime s) now + real (length b) / 24000,
           started := started s @ [(b, max (scheduledTime s) now)]\<rparr>"
    then show ?thesis using assms by simp
  qed
  then show "map fst (started (snd (playNextChunk now s))) @ audioQueue (snd (playNextChunk now s))
           = map fst (started s) @ audioQueue s"
    and "\<forall>b \<in> set (audioQueue (snd (playNextChunk now s))). b \<noteq> []" by simp_all
qed

lemma fifo_step:
  assumes "audioContext s" and "\<forall>b \<in> set (audioQueue s). b \<noteq> []" and "\<forall>b \<in> set (enqueued [e]). b \<noteq> []"
  shows "map fst (started (step s e)) @ audioQueue (step s e)
           = map fst (started s) @ audioQueue s @ enqueued [e]"
    and "\<forall>b \<in> set (audioQueue (step s e)). b \<noteq> []"
    and "audioContext (step s e)"
proof -
  show "audioContext (step s e)"
    using assms(1) by (cases e) (simp_all add: playNextChunk_audioContext enqueueAudio_def Let_def)
  show "map fst (started (step s e)) @ audioQueue (step s e)
           = map fst (started s) @ audioQueue s @ enqueued [e]"
  proof (cases e)
    case (EnqueueAudio now b)
    let ?s1 = "s\<lparr>audioQueue := audioQueue s @ [b]\<rparr>"
    have "audioContext ?s1" "\<forall>b \<in> set (audioQueue ?s1). b \<noteq> []"
      using assms EnqueueAudio by simp_all
    from fifo_playNextChunk(1)[OF this, of now] show ?thesis
      using EnqueueAudio by (simp add: enqueueAudio_def Let_def)
  next
    case (SourceEnded now)
    then show ?thesis using fifo_playNextChunk(1)[OF assms(1,2), of now] by simp
  next
    case AudioContextCreated
    then show ?thesis by simp
  qed
  show "\<forall>b \<in> set (audioQueue (step s e)). b \<noteq> []"
  proof (cases e)
    case (EnqueueAudio now b)
    let ?s1 = "s\<lparr>audioQueue := audioQueue s @ [b]\<rparr>"
    have "audioContext ?s1" "\<forall>b \<in> set (audioQueue ?s1). b \<noteq> []"
      using assms EnqueueAudio by simp_all
    from fifo_playNextChunk(2)[OF this, of now] show ?thesis
      using EnqueueAudio assms by (simp add: enqueueAudio_def Let_def)
  next
    case (SourceEnded now)
    then show ?thesis using fifo_playNextChunk(2)[OF assms(1,2), of now] by simp
  next
    case AudioContextCreated
    then show ?thesis using assms(2) by simp
  qed
qed

lemma enqueued_Cons: "enqueued (e # evs) = enqueued [e] @ enqueued evs"
  by (cases e) simp_all

lemma fifo_while_nothing_raises:
  assumes "audioContext s" and "\<forall>b \<in> set (audioQueue s). b \<noteq> []" and "\<forall>b \<in> set (enqueued evs). b \<noteq> []"
  shows "map fst (started (run evs s)) @ audioQueue (run evs s)
           = map fst (started s) @ audioQueue s @ enqueued evs"
  using assms
proof (induction evs arbitrary: s)
  case Nil
  then show ?case by (simp add: run_Nil)
next
  case (Cons e evs)
  have e1: "\<forall>b \<in> set (enqueued [e]). b \<noteq> []" and e2: "\<forall>b \<in> set (enqueued evs). b \<noteq> []"
    using Cons.prems(3) enqueued_Cons[of e evs] by auto
  note st = fifo_step[OF Cons.prems(1,2) e1]
  have "map fst (started (run (e # evs) s)) @ audioQueue (run (e # evs) s)
          = (map fst (started (step s e)) @ audioQueue (step s e)) @ enqueued evs"
    using Cons.IH[OF st(3) st(2) e2] by (simp add: run_Cons)
  also have "\<dots> = (map fst (started s) @ audioQueue s @ enqueued [e]) @ enqueued evs"
    by (simp only: st(1))
  also have "\<dots> = map fst (started s) @ audioQueue s @ enqueued (e # evs)"
    using enqueued_Cons[of e evs] by simp
  finally show ?case .
qed

text \<open>
  Once \<open>isPlayingRef\<close> is set, only an \<open>onended\<close> callback runs the playback loop again:
  without one, blocks enqueued later stay in the queue and nothing is started.
\<close>

lemma wedged:
  assumes "isPlaying s" and "\<forall>e \<in> set evs. \<not> is_ended e"
  shows "started (run evs s) = started s \<and> isPlaying (run evs s)
       \<and> audioQueue (run evs s) = audioQueue s @ enqueued evs"
  using assms
proof (induction evs arbitrary: s)
  case Nil
  then show ?case by (simp add: run_Nil)
next
  case (Cons e evs)
  have rest: "\<forall>e \<in> set evs. \<not> is_ended e" using Cons.prems(2) by simp
  show ?case
  proof (cases e)
    case (EnqueueAudio now b)
    let ?s1 = "s\<lparr>audioQueue := audioQueue s @ [b]\<rparr>"
    have "isPlaying ?s1" using Cons.prems(1) by simp
    from Cons.IH[OF this rest] show ?thesis
      using Cons.prems(1) EnqueueAudio by (simp add: run_Cons enqueueAudio_playing)
  next
    case (SourceEnded now)
    then show ?thesis using Cons.prems(2) by simp
  next
    case AudioContextCreated
    let ?s1 = "s\<lparr>audioContext := True\<rparr>"
    have "isPlaying ?s1" using Cons.prems(1) by simp
    from Cons.IH[OF this rest] show ?thesis
      using AudioContextCreated by (simp add: run_Cons)
  qed
qed

text \<open>
  Claim C6 fails at these inputs.  First run: audio arrives while
  \<open>audioContextRef.current\<close> is still \<open>null\<close>; the first block is shifted off the queue and
  \<open>ctx.createBuffer\<close> raises, so it is never started; \<open>isPlayingRef\<close> stays set with no
  source in flight, so the second block (also after the context has been created) is
  queued and never started.  Second run, with an audio context: an empty block is
  enqueued during playback; when the source in flight ends, the empty block is shifted
  off and \<open>createBuffer\<close> raises on zero frames; the block enqueued afterwards is never
  started.
\<close>

theorem fifo_blocks_lost:
  "(let s = run [EnqueueAudio 0 [1/2], AudioContextCreated, EnqueueAudio 1 [1/4]] initial
    in started s = [] \<and> audioQueue s = [[1/4]] \<and> isPlaying s)
   \<and> (let s = run [EnqueueAudio 0 [1/2, 1/2], EnqueueAudio 0 [], SourceEnded (1/12000),
                   EnqueueAudio 1 [1/4]] (initial\<lparr>audioContext := True\<rparr>)
      in started s = [([1/2, 1/2], 0)] \<and> audioQueue s = [[1/4]] \<and> isPlaying s)"
  by (simp add: run_def initial_def enqueueAudio_def playNextChunk_def Let_def)

section \<open>Sending and connecting\<close>

text \<open>
  Claim C7.  The worklet's message handler and \<open>sendVideoFrame\<close> transmit only when
  \<open>wsRef.current.readyState\<close> is \<open>OPEN\<close>.  In every other state (no socket, connecting,
  closing, closed) they leave the whole state as it is: nothing is sent, nothing is kept
  for later, nothing is logged; and they raise in no state.  With an open socket the
  audio chunk is sent, and the image chunk is when video is enabled.
\<close>

theorem send_gated_by_open:
  "(ws s \<noteq> Some OPEN \<longrightarrow>
       workletMessage inputData s = (None, s) \<and> sendVideoFrame base64Image s = (None, s))
   \<and> fst (workletMessage inputData s) = None \<and> fst (sendVideoFrame base64Image s) = None
   \<and> (sent (snd (workletMessage inputData s)) \<noteq> sent s \<longrightarrow> ws s = Some OPEN)
   \<and> (sent (snd (sendVideoFrame base64Image s)) \<noteq> sent s \<longrightarrow> ws s = Some OPEN)
   \<and> (ws s = Some OPEN \<longrightarrow>
        sent (snd (workletMessage inputData s))
          = sent s @ [MediaChunk ''audio/pcm;rate=16000'' (float32ToBase64 inputData)])
   \<and> (ws s = Some OPEN \<and> isVideoEnabled s \<longrightarrow>
        sent (snd (sendVideoFrame base64Image s)) = sent s @ [MediaChunk ''image/jpeg'' base64Image])"
  by (simp add: workletMessage_def sendVideoFrame_def Let_def addLog_def)

theorem send_gated_by_open_witness:
  "ws (initial\<lparr>ws := Some CONNECTING\<rparr>) \<noteq> Some OPEN
   \<and> workletMessage [1/2] (initial\<lparr>ws := Some CONNECTING\<rparr>) = (None, initial\<lparr>ws := Some CONNECTING\<rparr>)
   \<and> sendVideoFrame ''abcd'' (initial\<lparr>ws := Some CONNECTING\<rparr>) = (None, initial\<lparr>ws := Some CONNECTING\<rparr>)
   \<and> sent (snd (workletMessage [1/2] (initial\<lparr>ws := Some OPEN\<rparr>)))
        = [MediaChunk ''audio/pcm;rate=16000'' (float32ToBase64 [1/2])]
   \<and> sent (snd (sendVideoFrame ''abcd'' (initial\<lparr>ws := Some OPEN\<rparr>))) = [MediaChunk ''image/jpeg'' ''abcd'']"
  using send_gated_by_open[of "initial\<lparr>ws := Some CONNECTING\<rparr>" "[1/2]" "''abcd''"]
        send_gated_by_open[of "initial\<lparr>ws := Some OPEN\<rparr>" "[1/2]" "''abcd''"]
  by (simp add: initial_def)

lemma connect_no_key:
  "connect [] s = s\<lparr>error := Some ''API Key is missing'',
                     logs := drop (length (logs s) - 19) (logs s) @ [''Error: API Key is missing'']\<rparr>"
  by (simp add: connect_def addLog_def)

text \<open>
  Claim C8, as stated, fails where its two cases meet: with an \<open>OPEN\<close> socket and an empty
  credential \<open>connect\<close> is not a no-op, since the credential is tested first; it sets the
  error and adds a log line.
\<close>

theorem connect_noop_counterexample:
  "ws (initial\<lparr>ws := Some OPEN\<rparr>) = Some OPEN
   \<and> connect [] (initial\<lparr>ws := Some OPEN\<rparr>) \<noteq> initial\<lparr>ws := Some OPEN\<rparr>
   \<and> error (connect [] (initial\<lparr>ws := Some OPEN\<rparr>)) = Some ''API Key is missing''
   \<and> logs (connect [] (initial\<lparr>ws := Some OPEN\<rparr>)) = [''Error: API Key is missing'']"
proof -
  have "error (connect [] (initial\<lparr>ws := Some OPEN\<rparr>)) \<noteq> error (initial\<lparr>ws := Some OPEN\<rparr>)"
    by (simp add: connect_no_key initial_def)
  then have "connect [] (initial\<lparr>ws := Some OPEN\<rparr>) \<noteq> initial\<lparr>ws := Some OPEN\<rparr>"
    by metis
  then show ?thesis by (simp add: connect_no_key initial_def)
qed

text \<open>
  Claim C8, amended.  With a credential, \<open>connect\<close> changes nothing when the socket is
  already \<open>OPEN\<close>.  Without one (the empty string), in every state, an open socket
  included, it sets the error to \<open>API Key is missing\<close>, adds a log line and does nothing
  else: no WebSocket is created, and the socket ref, the messages sent and the connection
  flag are as before.
\<close>

theorem connect_guards:
  "(apiKey \<noteq> [] \<and> ws s = Some OPEN \<longrightarrow> connect apiKey s = s)
   \<and> connect [] s = s\<lparr>error := Some ''API Key is missing'',
                        logs := drop (length (logs s) - 19) (logs s) @ [''Error: API Key is missing'']\<rparr>
   \<and> error (connect [] s) = Some ''API Key is missing''
   \<and> opened (connect [] s) = opened s \<and> ws (connect [] s) = ws s \<and> sent (connect [] s) = sent s
   \<and> isConnected (connect [] s) = isConnected s"
proof -
  have a: "connect apiKey s = s" if "apiKey \<noteq> []" "ws s = Some OPEN"
    using that by (simp add: connect_def)
  show ?thesis using a by (simp add: connect_no_key)
qed

theorem connect_guards_witness:
  "''key'' \<noteq> [] \<and> ws ((connect ''key'' initial)\<lparr>ws := Some OPEN\<rparr>) = Some OPEN
   \<and> connect ''key'' ((connect ''key'' initial)\<lparr>ws := Some OPEN\<rparr>) = (connect ''key'' initial)\<lparr>ws := Some OPEN\<rparr>
   \<and> error (connect [] initial) = Some ''API Key is missing''
   \<and> opened (connect [] initial) = []
   \<and> ws (connect [] (initial\<lparr>ws := Some OPEN\<rparr>)) = Some OPEN"
  using connect_guards[of "''key''" "(connect ''key'' initial)\<lparr>ws := Some OPEN\<rparr>"]
        connect_guards[of "[]" initial]
        connect_guards[of "[]" "initial\<lparr>ws := Some OPEN\<rparr>"]
  by (simp add: initial_def)

section \<open>The emergency notification's result\<close>

lemma sms_config_missing:
  assumes "falsy_string (TWILIO_ACCOUNT_SID env) \<or> falsy_string (TWILIO_AUTH_TOKEN env)
           \<or> falsy_string (TWILIO_PHONE_NUMBER env) \<or> falsy_string (EMERGENCY_CONTACT_NUMBER env)"
  shows "sendEmergencySMS show_num create env latitude longitude
           = Inr (\<lparr>success = False, sid = None, sms_error = Some ''Configuration missing''\<rparr>, [])"
  using assms by (simp add: sendEmergencySMS_def Let_def)

lemma sms_client_raises:
  assumes "\<not> falsy_string (TWILIO_ACCOUNT_SID env)" "\<not> falsy_string (TWILIO_AUTH_TOKEN env)"
          "\<not> falsy_string (TWILIO_PHONE_NUMBER env)" "\<not> falsy_string (EMERGENCY_CONTACT_NUMBER env)"
      and "\<not> twilio_accepts (the (TWILIO_ACCOUNT_SID env)) (the (TWILIO_AUTH_TOKEN env))"
  shows "sendEmergencySMS show_num create env latitude longitude = Inl LibraryError"
  using assms by (simp add: sendEmergencySMS_def Let_def)

lemma sms_outcome:
  assumes "\<not> falsy_string (TWILIO_ACCOUNT_SID env)" "\<not> falsy_string (TWILIO_AUTH_TOKEN env)"
          "\<not> falsy_string (TWILIO_PHONE_NUMBER env)" "\<not> falsy_string (EMERGENCY_CONTACT_NUMBER env)"
      and "twilio_accepts (the (TWILIO_ACCOUNT_SID env)) (the (TWILIO_AUTH_TOKEN env))"
  shows "\<exists>m r. sendEmergencySMS show_num create env latitude longitude = Inr (r, [m])
           \<and> sms_body m = (if truthy_number latitude \<and> truthy_number longitude
                            then alarm_text @ location_text show_num (the latitude) (the longitude)
                            else alarm_text)
           \<and> r = (case create m of
                    Some i \<Rightarrow> \<lparr>success = True, sid = Some i, sms_error = None\<rparr>
                  | None \<Rightarrow> \<lparr>success = False, sid = None, sms_error = Some ''Failed to send SMS''\<rparr>)"
  using assms by (simp add: sendEmergencySMS_def Let_def split: option.splits)

text \<open>
  Claim C9 fails at latitude 0 with longitude 10, both provided: the configuration is
  complete, the client is created and the send succeeds (\<open>success\<close> with the \<open>sid\<close>), but
  the body is the alarm text alone, without the location link; at latitude 1 with the
  same longitude the link is there.
\<close>

theorem location_link_dropped_at_zero:
  "sendEmergencySMS show_num (\<lambda>m. Some ''SM1'')
      \<lparr>TWILIO_ACCOUNT_SID = Some ''AC1'', TWILIO_AUTH_TOKEN = Some ''tok'',
       TWILIO_PHONE_NUMBER = Some ''+15550001'', EMERGENCY_CONTACT_NUMBER = Some ''+15550002''\<rparr>
      (Some 0) (Some 10)
    = Inr (\<lparr>success = True, sid = Some ''SM1'', sms_error = None\<rparr>,
       [\<lparr>sms_body = alarm_text, sms_from = ''+15550001'', sms_to = ''+15550002''\<rparr>])
   \<and> sendEmergencySMS show_num (\<lambda>m. Some ''SM1'')
      \<lparr>TWILIO_ACCOUNT_SID = Some ''AC1'', TWILIO_AUTH_TOKEN = Some ''tok'',
       TWILIO_PHONE_NUMBER = Some ''+15550001'', EMERGENCY_CONTACT_NUMBER = Some ''+15550002''\<rparr>
      (Some 1) (Some 10)
    = Inr (\<lparr>success = True, sid = Some ''SM1'', sms_error = None\<rparr>,
       [\<lparr>sms_body = alarm_text @ location_text show_num 1 10, sms_from = ''+15550001'',
         sms_to = ''+15550002''\<rparr>])"
  by (simp add: sendEmergencySMS_def Let_def falsy_string_def truthy_number_def twilio_accepts_def)

section \<open>Inbound audio turns\<close>

text \<open>
  Claim C10.  A server audio turn with parts \<open>p # ps\<close> is handled exactly as the turn with
  the single part \<open>p\<close>: only the inline data of the first part is looked at.  When it
  decodes to a block, that block and no other is enqueued for playback: behind the
  queue when a source is playing; started at once (at the cursor raised to \<open>now\<close>) when
  the player is idle with an empty queue, an audio context and a non-empty block.  When
  it does not decode, the handler raises and the state is unchanged; when the first part
  has no inline data nothing is enqueued, whatever the later parts carry.
\<close>

theorem only_first_part_played:
  "onmessage now (Data (Some \<lparr>modelTurn = Some \<lparr>parts = Some (p # ps)\<rparr>, interrupted = i\<rparr>)) s
     = onmessage now (Data (Some \<lparr>modelTurn = Some \<lparr>parts = Some [p]\<rparr>, interrupted = i\<rparr>)) s
   \<and> firstInlineData (Some \<lparr>modelTurn = Some \<lparr>parts = Some (p # ps)\<rparr>, interrupted = i\<rparr>)
       = inlineData p
   \<and> (inlineData p = Some d \<and> base64ToFloat32 d = Inr pcmData \<longrightarrow>
        onmessage now (Data (Some \<lparr>modelTurn = Some \<lparr>parts = Some (p # ps)\<rparr>, interrupted = False\<rparr>)) s
          = enqueueAudio now pcmData s
        \<and> (isPlaying s \<longrightarrow>
             onmessage now (Data (Some \<lparr>modelTurn = Some \<lparr>parts = Some (p # ps)\<rparr>, interrupted = False\<rparr>)) s
               = (None, s\<lparr>audioQueue := audioQueue s @ [pcmData]\<rparr>))
        \<and> (\<not> isPlaying s \<and> audioQueue s = [] \<and> audioContext s \<and> pcmData \<noteq> [] \<longrightarrow>
             onmessage now (Data (Some \<lparr>modelTurn = Some \<lparr>parts = Some (p # ps)\<rparr>, interrupted = False\<rparr>)) s
               = (None, s\<lparr>isPlaying := True, isSpeaking := True,
                          scheduledTime := (if scheduledTime s < now then now else scheduledTime s)
                                             + real (length pcmData) / 24000,
                          started := started s
                             @ [(pcmData, if scheduledTime s < now then now else scheduledTime s)]\<rparr>)))
   \<and> (inlineData p = Some d \<and> base64ToFloat32 d = Inl e \<longrightarrow>
        onmessage now (Data (Some \<lparr>modelTurn = Some \<lparr>parts = Some (p # ps)\<rparr>, interrupted = False\<rparr>)) s
          = (Some e, s))
   \<and> (inlineData p = None \<longrightarrow>
        onmessage now (Data (Some \<lparr>modelTurn = Some \<lparr>parts = Some (p # ps)\<rparr>, interrupted = False\<rparr>)) s
          = (None, s))"
  by (simp add: onmessage_def firstInlineData_def enqueueAudio_def playNextChunk_def Let_def)

theorem only_first_part_played_witness:
  "base64ToFloat32 (float32ToBase64 [1, - 1]) = Inr [32767 / 32768, - 1]
   \<and> onmessage 0 (Data (Some \<lparr>modelTurn = Some \<lparr>parts = Some
          [\<lparr>inlineData = Some (float32ToBase64 [1, - 1])\<rparr>, \<lparr>inlineData = Some (float32ToBase64 [0])\<rparr>]\<rparr>,
           interrupted = False\<rparr>)) (initial\<lparr>audioContext := True\<rparr>)
       = (None, initial\<lparr>audioContext := True, isPlaying := True, isSpeaking := True,
                        scheduledTime := 2 / 24000, started := [([32767 / 32768, - 1], 0)]\<rparr>)
   \<and> onmessage 0 (Data (Some \<lparr>modelTurn = Some \<lparr>parts = Some
          [\<lparr>inlineData = Some (float32ToBase64 [1, - 1])\<rparr>, \<lparr>inlineData = Some (float32ToBase64 [0])\<rparr>]\<rparr>,
           interrupted = False\<rparr>)) (initial\<lparr>audioContext := True, isPlaying := True\<rparr>)
       = (None, initial\<lparr>audioContext := True, isPlaying := True, audioQueue := [[32767 / 32768, - 1]]\<rparr>)
   \<and> onmessage 0 (Data (Some \<lparr>modelTurn = Some \<lparr>parts = Some
          [\<lparr>inlineData = None\<rparr>, \<lparr>inlineData = Some (float32ToBase64 [0])\<rparr>]\<rparr>,
           interrupted = False\<rparr>)) (initial\<lparr>audioContext := True\<rparr>)
       = (None, initial\<lparr>audioContext := True\<rparr>)"
proof -
  have d: "base64ToFloat32 (float32ToBase64 [1, - 1]) = Inr [32767 / 32768, - 1]"
    unfolding decode_encode by (simp add: pcm16_of_one pcm16_of_minus_one)
  let ?m = "Data (Some \<lparr>modelTurn = Some \<lparr>parts = Some
          [\<lparr>inlineData = Some (float32ToBase64 [1, - 1])\<rparr>, \<lparr>inlineData = Some (float32ToBase64 [0])\<rparr>]\<rparr>,
           interrupted = False\<rparr>)"
  note idle = only_first_part_played[of 0 "\<lparr>inlineData = Some (float32ToBase64 [1, - 1])\<rparr>"
         "[\<lparr>inlineData = Some (float32ToBase64 [0])\<rparr>]" False "initial\<lparr>audioContext := True\<rparr>"
         "float32ToBase64 [1, - 1]" "[32767 / 32768, - 1]"]
  note busy = only_first_part_played[of 0 "\<lparr>inlineData = Some (float32ToBase64 [1, - 1])\<rparr>"
         "[\<lparr>inlineData = Some (float32ToBase64 [0])\<rparr>]" False
         "initial\<lparr>audioContext := True, isPlaying := True\<rparr>"
         "float32ToBase64 [1, - 1]" "[32767 / 32768, - 1]"]
  note none = only_first_part_played[of 0 "\<lparr>inlineData = None\<rparr>"
         "[\<lparr>inlineData = Some (float32ToBase64 [0])\<rparr>]" False "initial\<lparr>audioContext := True\<rparr>"
         "[]" "[]"]
  have h: "inlineData \<lparr>inlineData = Some (float32ToBase64 [1, - 1])\<rparr> = Some (float32ToBase64 [1, - 1])
           \<and> base64ToFloat32 (float32ToBase64 [1, - 1]) = Inr [32767 / 32768, - 1]"
    using d by simp
  note idle' = idle[THEN conjunct2, THEN conjunct2, THEN conjunct1, rule_format, OF h]
  note busy' = busy[THEN conjunct2, THEN conjunct2, THEN conjunct1, rule_format, OF h]
  have a: "onmessage 0 ?m (initial\<lparr>audioContext := True\<rparr>)
       = (None, initial\<lparr>audioContext := True, isPlaying := True, isSpeaking := True,
                        scheduledTime := 2 / 24000, started := [([32767 / 32768, - 1], 0)]\<rparr>)"
    using idle'[THEN conjunct2, THEN conjunct2] by (simp add: initial_def)
  have b: "onmessage 0 ?m (initial\<lparr>audioContext := True, isPlaying := True\<rparr>)
       = (None, initial\<lparr>audioContext := True, isPlaying := True, audioQueue := [[32767 / 32768, - 1]]\<rparr>)"
    using busy'[THEN conjunct2, THEN conjunct1] by (simp add: initial_def)
  have c: "onmessage 0 (Data (Some \<lparr>modelTurn = Some \<lparr>parts = Some
          [\<lparr>inlineData = None\<rparr>, \<lparr>inlineData = Some (float32ToBase64 [0])\<rparr>]\<rparr>,
           interrupted = False\<rparr>)) (initial\<lparr>audioContext := True\<rparr>)
       = (None, initial\<lparr>audioContext := True\<rparr>)"
    by (rule none[THEN conjunct2, THEN conjunct2, THEN conjunct2, THEN conjunct2, rule_format]) simp
  show ?thesis using a b c d by simp
qed

end
